theory Spec2Isabelle
  imports Complex_Main
begin

section \<open>McCabe-Thiele diagram script: embedding of \<^verbatim>\<open>main.py\<close>\<close>

text \<open>
  The script works on Python and numpy floating-point numbers. In the first part of this
  theory they are modelled as exact real numbers: every comparison and every arithmetic
  operation is the one of the source, taken without rounding. The reals have no infinity and
  no NaN, which numpy produces when it divides by zero before carrying on; the outcome
  \<open>NonFinite\<close> marks the runs in which such a value enters the minimum reflux, the operating
  lines or the column diameter. It is not an exception of the program: the real-valued model
  does not follow those runs. The second section states the script over an arbitrary
  arithmetic, where no run is left out. The plotting calls are not modelled.
\<close>

subsection \<open>Errors and array indexing\<close>

datatype error = TypeError | IndexError | ZeroDivisionError | SplineError | NonFinite

text \<open>Indexing as Python and numpy do it: a negative index counts from the end, an index
  outside \<open>[-n, n)\<close> raises.\<close>

definition index :: "'a list \<Rightarrow> int \<Rightarrow> error + 'a" where
  "index xs i =
     (if 0 \<le> i \<and> i < int (length xs) then Inr (xs ! nat i)
      else if i < 0 \<and> - int (length xs) \<le> i then Inr (xs ! nat (int (length xs) + i))
      else Inl IndexError)"

subsection \<open>Configuration\<close>

text \<open>The constants at the head of the script that the computation reads.\<close>

record config =
  xF :: real
  xD :: real
  xW :: real
  R_multiplier :: real
  q :: real
  vapor_velocity :: real
  tray_spacing :: real
  equilibrium_data :: "(real \<times> real) list"

definition x_eq :: "config \<Rightarrow> real list" where
  "x_eq c = map fst (equilibrium_data c)"

definition y_eq :: "config \<Rightarrow> real list" where
  "y_eq c = map snd (equilibrium_data c)"

definition default_table :: "(real \<times> real) list" where
  "default_table =
     [(0.1, 0.22), (0.2, 0.39), (0.3, 0.52), (0.4, 0.63), (0.5, 0.72),
      (0.6, 0.80), (0.7, 0.86), (0.8, 0.92), (0.9, 0.96)]"

definition default_config :: config where
  "default_config =
     \<lparr> xF = 0.4, xD = 0.98, xW = 0.02, R_multiplier = 1.5, q = 1.0,
       vapor_velocity = 0.8, tray_spacing = 0.6, equilibrium_data = default_table \<rparr>"


subsection \<open>Feed line\<close>

text \<open>\<^verbatim>\<open>np.linspace(a, b, n)\<close> for \<open>n \<ge> 2\<close>: \<open>n\<close> evenly spaced samples, both ends included.\<close>

definition linspace :: "real \<Rightarrow> real \<Rightarrow> nat \<Rightarrow> real list" where
  "linspace a b n = map (\<lambda>i. a + real i * ((b - a) / real (n - 1))) [0..<n]"

definition feed_line :: "real \<Rightarrow> real \<Rightarrow> real list \<times> real list" where
  "feed_line xf qq =
     (if qq = 1 then ([xf, xf], [0, 1])
      else
        (let slope = qq / (qq - 1);
             intercept = - xf / (qq - 1);
             x_feed = linspace 0 1 100;
             y_feed = map (\<lambda>x. slope * x + intercept) x_feed
         in (x_feed, y_feed)))"

subsection \<open>Minimum reflux ratio\<close>

text \<open>The scan of \<^verbatim>\<open>find_intersection\<close>: the first index whose \<open>y\<close> exceeds \<open>xF\<close>. Falling out
  of the \<^verbatim>\<open>for\<close> loop returns Python's \<open>None\<close>. The two columns are slices of one array and
  have the same length, so the scan walks them together.\<close>

fun find_from :: "real list \<Rightarrow> real list \<Rightarrow> real \<Rightarrow> (real \<times> real) option" where
  "find_from (x # xs) (y # ys) xf = (if y > xf then Some (x, y) else find_from xs ys xf)"
| "find_from _ _ xf = None"

definition find_intersection :: "real list \<Rightarrow> real list \<Rightarrow> real \<Rightarrow> real \<Rightarrow> (real \<times> real) option" where
  "find_intersection xe ye xf xd = find_from xe ye xf"

text \<open>Lines 58-59: unpacking \<open>None\<close> raises \<open>TypeError\<close>; the quotient is a numpy one.\<close>

definition minimum_reflux :: "config \<Rightarrow> error + (real \<times> real \<times> real)" where
  "minimum_reflux c =
     (case find_intersection (x_eq c) (y_eq c) (xF c) (xD c) of
        None \<Rightarrow> Inl TypeError
      | Some (xiE, yiE) \<Rightarrow>
          if yiE - xiE = 0 then Inl NonFinite
          else Inr (xiE, yiE, (xD c - yiE) / (yiE - xiE)))"

subsection \<open>Inverting the equilibrium table\<close>

text \<open>The \<^verbatim>\<open>while low <= high\<close> loop of \<^verbatim>\<open>binary_search_interpolate\<close>. It either returns
  from the function with \<open>x_eq[mid]\<close> (\<open>Inl\<close>) or leaves the loop with the final \<open>low\<close>
  (\<open>Inr\<close>).\<close>

function search_loop ::
  "real \<Rightarrow> real list \<Rightarrow> real list \<Rightarrow> int \<Rightarrow> int \<Rightarrow> error + (real + int)" where
  "search_loop y_target xe ye low high =
     (if low \<le> high then
        (let mid = (low + high) div 2 in
           case index ye mid of
             Inl e \<Rightarrow> Inl e
           | Inr ym \<Rightarrow>
               if ym < y_target then search_loop y_target xe ye (mid + 1) high
               else if ym > y_target then search_loop y_target xe ye low (mid - 1)
               else (case index xe mid of Inl e \<Rightarrow> Inl e | Inr xm \<Rightarrow> Inr (Inl xm)))
      else Inr (Inr low))"
  by pat_completeness auto
termination
  by (relation "measure (\<lambda>(y_target, xe, ye, low, high). nat (high - low + 1))") auto

declare search_loop.simps [simp del]

definition interpolate :: "real \<Rightarrow> real list \<Rightarrow> real list \<Rightarrow> int \<Rightarrow> error + real" where
  "interpolate y_target xe ye low =
     (case index xe (low - 1) of Inl e \<Rightarrow> Inl e | Inr x1 \<Rightarrow>
     (case index ye (low - 1) of Inl e \<Rightarrow> Inl e | Inr y1 \<Rightarrow>
     (case index xe low of Inl e \<Rightarrow> Inl e | Inr x2 \<Rightarrow>
     (case index ye low of Inl e \<Rightarrow> Inl e | Inr y2 \<Rightarrow>
        if y2 - y1 = 0 then Inl NonFinite
        else Inr (x1 + (y_target - y1) * (x2 - x1) / (y2 - y1))))))"

definition binary_search_interpolate :: "real \<Rightarrow> real list \<Rightarrow> real list \<Rightarrow> error + real" where
  "binary_search_interpolate y_target xe ye =
     (case search_loop y_target xe ye 0 (int (length ye) - 1) of
        Inl e \<Rightarrow> Inl e
      | Inr (Inl x) \<Rightarrow> Inr x
      | Inr (Inr low) \<Rightarrow>
          if low = 0 then index xe 0
          else if low \<ge> int (length ye) then index xe (- 1)
          else interpolate y_target xe ye low)"

subsection \<open>Operating lines\<close>

definition rectifying_line :: "real \<Rightarrow> real \<Rightarrow> error + (real list \<times> real list)" where
  "rectifying_line xd R =
     (if R + 1 = 0 then Inl NonFinite
      else
        (let slope = R / (R + 1);
             intercept = xd / (R + 1);
             x_rect = linspace 0 xd 100;
             y_rect = map (\<lambda>x. slope * x + intercept) x_rect
         in Inr (x_rect, y_rect)))"

definition stripping_line :: "real \<Rightarrow> real \<Rightarrow> real \<Rightarrow> error + (real list \<times> real list)" where
  "stripping_line xw xiF yiF =
     (if xiF - xw = 0 then Inl NonFinite
      else
        (let slope = (yiF - xw) / (xiF - xw);
             intercept = xw - slope * xw;
             x_strip = linspace xw xiF 100;
             y_strip = map (\<lambda>x. slope * x + intercept) x_strip
         in Inr (x_strip, y_strip)))"

text \<open>Line 82: the intersection of feed line and rectifying line; \<open>q = 1\<close> is special-cased.\<close>

definition intersection_x :: "config \<Rightarrow> real \<Rightarrow> error + real" where
  "intersection_x c R =
     (if q c \<noteq> 1 then
        (if q c / (q c - 1) - R / (R + 1) = 0 then Inl NonFinite
         else Inr ((xF c / (q c - 1) + xD c / (R + 1)) / (q c / (q c - 1) - R / (R + 1))))
      else Inr (xF c))"

subsection \<open>Stage stepping\<close>

text \<open>The variables the \<^verbatim>\<open>while\<close> loop reads and writes.\<close>

record vars =
  stages :: "(real \<times> real) list"
  current_x :: real
  iteration_count :: nat
  current_y :: real
  next_x :: real

definition tolerance :: real where
  "tolerance = 1 / 10000"

definition max_iterations :: nat where
  "max_iterations = 1000"

text \<open>One pass through the loop body (lines 119-139). \<open>R\<close>, \<open>xiF\<close> and \<open>yiF\<close> are the values
  the script has computed before the loop. The boolean says whether the body left through
  \<^verbatim>\<open>break\<close>.\<close>

definition loop_body :: "config \<Rightarrow> real \<Rightarrow> real \<Rightarrow> real \<Rightarrow> vars \<Rightarrow> error + (bool \<times> vars)" where
  "loop_body c R xiF yiF s =
     (let s1 = s\<lparr>iteration_count := iteration_count s + 1\<rparr>;
          s2 = s1\<lparr>current_y :=
                 (if current_x s1 > xiF then R / (R + 1) * current_x s1 + xD c / (R + 1)
                  else (yiF - xW c) / (xiF - xW c) * (current_x s1 - xW c) + xW c)\<rparr>;
          s3 = s2\<lparr>stages := stages s2 @ [(current_x s2, current_y s2)]\<rparr>
      in case binary_search_interpolate (current_y s3) (x_eq c) (y_eq c) of
           Inl e \<Rightarrow> Inl e
         | Inr nx \<Rightarrow>
             (let s4 = s3\<lparr>next_x := nx\<rparr>;
                  s5 = s4\<lparr>stages := stages s4 @ [(next_x s4, current_y s4)]\<rparr>
              in if \<bar>current_x s5 - next_x s5\<bar> < tolerance then Inr (True, s5)
                 else Inr (False, s5\<lparr>current_x := next_x s5\<rparr>)))"

function stage_loop :: "config \<Rightarrow> real \<Rightarrow> real \<Rightarrow> real \<Rightarrow> vars \<Rightarrow> error + vars" where
  "stage_loop c R xiF yiF s =
     (if current_x s > xW c + tolerance \<and> iteration_count s < max_iterations then
        (case loop_body c R xiF yiF s of
           Inl e \<Rightarrow> Inl e
         | Inr (brk, s') \<Rightarrow> if brk then Inr s' else stage_loop c R xiF yiF s')
      else Inr s)"
  by pat_completeness auto
termination
  by (relation "measure (\<lambda>(c, R, xiF, yiF, s). max_iterations - iteration_count s)")
     (auto simp: loop_body_def Let_def split: sum.splits if_splits)

declare stage_loop.simps [simp del]

subsection \<open>Column sizing and the printed summary\<close>

text \<open>Lines 146-147. The quotient is one of plain Python floats, which raises on a zero
  divisor; \<^verbatim>\<open>np.sqrt\<close> of a negative number is a NaN.\<close>

definition column_sizing :: "config \<Rightarrow> error + real" where
  "column_sizing c =
     (let volumetric_flow_rate = 100 / 3600 in
      if pi * vapor_velocity c = 0 then Inl ZeroDivisionError
      else if 4 * volumetric_flow_rate / (pi * vapor_velocity c) < 0 then Inl NonFinite
      else Inr (sqrt (4 * volumetric_flow_rate / (pi * vapor_velocity c))))"

record report =
  warning :: bool
  reported_R_min :: real
  reported_R :: real
  number_of_stages :: nat
  feed_stage :: nat
  column_diameter :: real
  reported_tray_spacing :: real

text \<open>Lines 112-143: the initialisation of the loop variables, the loop, and the check that
  prints the warning. \<open>g\<close> holds whatever the loop variables contained before (a previous run
  in the same interpreter leaves its values there); three of them are reset. The boolean
  says whether the warning is printed.\<close>

definition stage_stepping :: "config \<Rightarrow> real \<Rightarrow> real \<Rightarrow> real \<Rightarrow> vars \<Rightarrow> error + (bool \<times> vars)" where
  "stage_stepping c R xiF yiF g =
     (let s0 = g\<lparr>stages := [], current_x := xD c, iteration_count := 0\<rparr> in
      case stage_loop c R xiF yiF s0 of
        Inl e \<Rightarrow> Inl e
      | Inr s \<Rightarrow> Inr (iteration_count s \<ge> max_iterations, s))"

text \<open>Line 33: \<^verbatim>\<open>InterpolatedUnivariateSpline(x_eq, y_eq, k=3)\<close>. The spline only feeds the plot,
  but the fit runs before everything else and raises when the abscissae are not strictly
  increasing or when there are fewer than four points.\<close>

definition spline_fit :: "real list \<Rightarrow> real list \<Rightarrow> error + unit" where
  "spline_fit xe ye =
     (if sorted_wrt (<) xe \<and> 3 < length xe then Inr () else Inl SplineError)"

text \<open>The whole script, from the table to the printed summary. Slicing the columns out of an
  empty array (lines 29-30) raises \<open>IndexError\<close>. The samples of the feed, rectifying and
  stripping lines go to the plot only; in particular the slope that \<^verbatim>\<open>stripping_line\<close>
  computes is not read again (the loop has the formula of its own), so a stripping line
  that is not finite does not stop the run.\<close>

definition script :: "config \<Rightarrow> vars \<Rightarrow> error + (report \<times> vars)" where
  "script c g =
     (if equilibrium_data c = [] then Inl IndexError else
      case spline_fit (x_eq c) (y_eq c) of Inl e \<Rightarrow> Inl e | Inr fitted \<Rightarrow>
     (let (x_feed, y_feed) = feed_line (xF c) (q c) in
      case minimum_reflux c of Inl e \<Rightarrow> Inl e | Inr (xiE, yiE, R_min) \<Rightarrow>
     (let R = R_multiplier c * R_min in
      case rectifying_line (xD c) R of Inl e \<Rightarrow> Inl e | Inr (x_rect, y_rect) \<Rightarrow>
     (case intersection_x c R of Inl e \<Rightarrow> Inl e | Inr xiF \<Rightarrow>
     (let yiF = R / (R + 1) * xiF + xD c / (R + 1);
          strip = stripping_line (xW c) xiF yiF in
      case stage_stepping c R xiF yiF g of Inl e \<Rightarrow> Inl e | Inr (w, s) \<Rightarrow>
     (case column_sizing c of Inl e \<Rightarrow> Inl e | Inr d \<Rightarrow>
        Inr (\<lparr> warning = w,
                reported_R_min = R_min,
                reported_R = R,
                number_of_stages = length (stages s) div 2,
                feed_stage = length (filter (\<lambda>p. fst p > xiF) (stages s)),
                column_diameter = d,
                reported_tray_spacing = tray_spacing c \<rparr>, s)))))))"

section \<open>The script over an arbitrary arithmetic\<close>

text \<open>
  The same script once more, with the numbers and their operations as parameters. An
  arithmetic \<open>A\<close> gives the literals, the operations and comparisons of the source, and
  the two library calls the outcome depends on: \<^verbatim>\<open>np.linspace\<close>, and whether the spline fit
  of line 33 raises. For the program, \<open>A\<close> is the binary64 arithmetic of Python and numpy,
  infinities and NaNs included; \<open>exact\<close> below is the arithmetic of the first part. Nothing
  is assumed about \<open>A\<close>. The names are those of the first part with a prime.

  \<open>fdiv\<close> is numpy's division, which returns an infinity or a NaN on a zero divisor;
  \<open>flt A a b\<close> stands for \<^verbatim>\<open>a < b\<close> as well as for \<^verbatim>\<open>b > a\<close>, and \<open>feq\<close> for \<^verbatim>\<open>==\<close>.
\<close>

record 'v arith =
  flit :: "rat \<Rightarrow> 'v"
  fpi :: "'v"
  fadd :: "'v \<Rightarrow> 'v \<Rightarrow> 'v"
  fsub :: "'v \<Rightarrow> 'v \<Rightarrow> 'v"
  fmul :: "'v \<Rightarrow> 'v \<Rightarrow> 'v"
  fdiv :: "'v \<Rightarrow> 'v \<Rightarrow> 'v"
  fneg :: "'v \<Rightarrow> 'v"
  flt :: "'v \<Rightarrow> 'v \<Rightarrow> bool"
  feq :: "'v \<Rightarrow> 'v \<Rightarrow> bool"
  fabs :: "'v \<Rightarrow> 'v"
  fsqrt :: "'v \<Rightarrow> 'v"
  flinspace :: "'v \<Rightarrow> 'v \<Rightarrow> nat \<Rightarrow> 'v list"
  fspline_raises :: "'v list \<Rightarrow> 'v list \<Rightarrow> bool"

text \<open>The division of two plain Python floats raises on a zero divisor. In the script
  these are the quotients by \<^verbatim>\<open>q - 1\<close> and the one inside \<^verbatim>\<open>np.sqrt\<close>; every other
  quotient has a numpy operand.\<close>

definition py_div :: "'v arith \<Rightarrow> 'v \<Rightarrow> 'v \<Rightarrow> error + 'v" where
  "py_div A a b = (if feq A b (flit A 0) then Inl ZeroDivisionError else Inr (fdiv A a b))"

record 'v config' =
  xF' :: 'v
  xD' :: 'v
  xW' :: 'v
  R_multiplier' :: 'v
  q' :: 'v
  vapor_velocity' :: 'v
  tray_spacing' :: 'v
  equilibrium_data' :: "('v \<times> 'v) list"

definition x_eq' :: "'v config' \<Rightarrow> 'v list" where
  "x_eq' c = map fst (equilibrium_data' c)"

definition y_eq' :: "'v config' \<Rightarrow> 'v list" where
  "y_eq' c = map snd (equilibrium_data' c)"

definition feed_line' :: "'v arith \<Rightarrow> 'v \<Rightarrow> 'v \<Rightarrow> error + ('v list \<times> 'v list)" where
  "feed_line' A xf qq =
     (if feq A qq (flit A 1) then Inr ([xf, xf], [flit A 0, flit A 1])
      else
        case py_div A qq (fsub A qq (flit A 1)) of Inl e \<Rightarrow> Inl e | Inr slope \<Rightarrow>
       (case py_div A (fneg A xf) (fsub A qq (flit A 1)) of Inl e \<Rightarrow> Inl e | Inr intercept \<Rightarrow>
          (let x_feed = flinspace A (flit A 0) (flit A 1) 100;
               y_feed = map (\<lambda>x. fadd A (fmul A slope x) intercept) x_feed
           in Inr (x_feed, y_feed))))"

fun find_intersection' :: "'v arith \<Rightarrow> 'v list \<Rightarrow> 'v list \<Rightarrow> 'v \<Rightarrow> 'v \<Rightarrow> ('v \<times> 'v) option" where
  "find_intersection' A (x # xs) (y # ys) xf xd =
     (if flt A xf y then Some (x, y) else find_intersection' A xs ys xf xd)"
| "find_intersection' A _ _ xf xd = None"

definition rectifying_line' :: "'v arith \<Rightarrow> 'v \<Rightarrow> 'v \<Rightarrow> 'v list \<times> 'v list" where
  "rectifying_line' A xd R =
     (let slope = fdiv A R (fadd A R (flit A 1));
          intercept = fdiv A xd (fadd A R (flit A 1));
          x_rect = flinspace A (flit A 0) xd 100;
          y_rect = map (\<lambda>x. fadd A (fmul A slope x) intercept) x_rect
      in (x_rect, y_rect))"

definition stripping_line' :: "'v arith \<Rightarrow> 'v \<Rightarrow> 'v \<Rightarrow> 'v \<Rightarrow> 'v list \<times> 'v list" where
  "stripping_line' A xw xiF yiF =
     (let slope = fdiv A (fsub A yiF xw) (fsub A xiF xw);
          intercept = fsub A xw (fmul A slope xw);
          x_strip = flinspace A xw xiF 100;
          y_strip = map (\<lambda>x. fadd A (fmul A slope x) intercept) x_strip
      in (x_strip, y_strip))"

definition intersection_x' :: "'v arith \<Rightarrow> 'v config' \<Rightarrow> 'v \<Rightarrow> error + 'v" where
  "intersection_x' A c R =
     (if \<not> feq A (q' c) (flit A 1) then
        case py_div A (xF' c) (fsub A (q' c) (flit A 1)) of Inl e \<Rightarrow> Inl e | Inr a \<Rightarrow>
       (case py_div A (q' c) (fsub A (q' c) (flit A 1)) of Inl e \<Rightarrow> Inl e | Inr b \<Rightarrow>
          Inr (fdiv A (fadd A a (fdiv A (xD' c) (fadd A R (flit A 1))))
                      (fsub A b (fdiv A R (fadd A R (flit A 1))))))
      else Inr (xF' c))"

text \<open>The inversion of the table, and the stage stepping.\<close>

function search_loop' ::
  "'v arith \<Rightarrow> 'v \<Rightarrow> 'v list \<Rightarrow> 'v list \<Rightarrow> int \<Rightarrow> int \<Rightarrow> error + ('v + int)" where
  "search_loop' A y_target xe ye low high =
     (if low \<le> high then
        (let mid = (low + high) div 2 in
           case index ye mid of
             Inl e \<Rightarrow> Inl e
           | Inr ym \<Rightarrow>
               if flt A ym y_target then search_loop' A y_target xe ye (mid + 1) high
               else if flt A y_target ym then search_loop' A y_target xe ye low (mid - 1)
               else (case index xe mid of Inl e \<Rightarrow> Inl e | Inr xm \<Rightarrow> Inr (Inl xm)))
      else Inr (Inr low))"
  by pat_completeness auto
termination
  by (relation "measure (\<lambda>(A, y_target, xe, ye, low, high). nat (high - low + 1))") auto

declare search_loop'.simps [simp del]

definition interpolate' :: "'v arith \<Rightarrow> 'v \<Rightarrow> 'v list \<Rightarrow> 'v list \<Rightarrow> int \<Rightarrow> error + 'v" where
  "interpolate' A y_target xe ye low =
     (case index xe (low - 1) of Inl e \<Rightarrow> Inl e | Inr x1 \<Rightarrow>
     (case index ye (low - 1) of Inl e \<Rightarrow> Inl e | Inr y1 \<Rightarrow>
     (case index xe low of Inl e \<Rightarrow> Inl e | Inr x2 \<Rightarrow>
     (case index ye low of Inl e \<Rightarrow> Inl e | Inr y2 \<Rightarrow>
        Inr (fadd A x1 (fdiv A (fmul A (fsub A y_target y1) (fsub A x2 x1)) (fsub A y2 y1)))))))"

definition binary_search_interpolate' :: "'v arith \<Rightarrow> 'v \<Rightarrow> 'v list \<Rightarrow> 'v list \<Rightarrow> error + 'v" where
  "binary_search_interpolate' A y_target xe ye =
     (case search_loop' A y_target xe ye 0 (int (length ye) - 1) of
        Inl e \<Rightarrow> Inl e
      | Inr (Inl x) \<Rightarrow> Inr x
      | Inr (Inr low) \<Rightarrow>
          if low = 0 then index xe 0
          else if low \<ge> int (length ye) then index xe (- 1)
          else interpolate' A y_target xe ye low)"

record 'v vars' =
  stages' :: "('v \<times> 'v) list"
  current_x' :: 'v
  iteration_count' :: nat
  current_y' :: 'v
  next_x' :: 'v

definition loop_body' ::
  "'v arith \<Rightarrow> 'v config' \<Rightarrow> 'v \<Rightarrow> 'v \<Rightarrow> 'v \<Rightarrow> 'v vars' \<Rightarrow> error + (bool \<times> 'v vars')" where
  "loop_body' A c R xiF yiF s =
     (let s1 = s\<lparr>iteration_count' := iteration_count' s + 1\<rparr>;
          s2 = s1\<lparr>current_y' :=
                 (if flt A xiF (current_x' s1)
                  then fadd A (fmul A (fdiv A R (fadd A R (flit A 1))) (current_x' s1))
                              (fdiv A (xD' c) (fadd A R (flit A 1)))
                  else fadd A (fmul A (fdiv A (fsub A yiF (xW' c)) (fsub A xiF (xW' c)))
                                      (fsub A (current_x' s1) (xW' c)))
                              (xW' c))\<rparr>;
          s3 = s2\<lparr>stages' := stages' s2 @ [(current_x' s2, current_y' s2)]\<rparr>
      in case binary_search_interpolate' A (current_y' s3) (x_eq' c) (y_eq' c) of
           Inl e \<Rightarrow> Inl e
         | Inr nx \<Rightarrow>
             (let s4 = s3\<lparr>next_x' := nx\<rparr>;
                  s5 = s4\<lparr>stages' := stages' s4 @ [(next_x' s4, current_y' s4)]\<rparr>
              in if flt A (fabs A (fsub A (current_x' s5) (next_x' s5))) (flit A (1 / 10000))
                 then Inr (True, s5)
                 else Inr (False, s5\<lparr>current_x' := next_x' s5\<rparr>)))"

function stage_loop' ::
  "'v arith \<Rightarrow> 'v config' \<Rightarrow> 'v \<Rightarrow> 'v \<Rightarrow> 'v \<Rightarrow> 'v vars' \<Rightarrow> error + 'v vars'" where
  "stage_loop' A c R xiF yiF s =
     (if flt A (fadd A (xW' c) (flit A (1 / 10000))) (current_x' s) \<and>
         iteration_count' s < max_iterations then
        (case loop_body' A c R xiF yiF s of
           Inl e \<Rightarrow> Inl e
         | Inr (brk, s') \<Rightarrow> if brk then Inr s' else stage_loop' A c R xiF yiF s')
      else Inr s)"
  by pat_completeness auto
termination
  by (relation "measure (\<lambda>(A, c, R, xiF, yiF, s). max_iterations - iteration_count' s)")
     (auto simp: loop_body'_def Let_def split: sum.splits if_splits)

declare stage_loop'.simps [simp del]

record 'v report' =
  warning' :: bool
  reported_R_min' :: 'v
  reported_R' :: 'v
  number_of_stages' :: nat
  feed_stage' :: nat
  column_diameter' :: 'v
  reported_tray_spacing' :: 'v

definition column_sizing' :: "'v arith \<Rightarrow> 'v config' \<Rightarrow> error + 'v" where
  "column_sizing' A c =
     (let volumetric_flow_rate = flit A (100 / 3600) in
      case py_div A (fmul A (flit A 4) volumetric_flow_rate) (fmul A (fpi A) (vapor_velocity' c)) of
        Inl e \<Rightarrow> Inl e
      | Inr a \<Rightarrow> Inr (fsqrt A a))"

text \<open>The script: lines 29-30 (an empty array cannot be sliced into columns), the spline
  fit, the operating lines, the stepping from freshly set loop variables, the warning, the
  column diameter and the summary.\<close>

definition script' :: "'v arith \<Rightarrow> 'v config' \<Rightarrow> 'v vars' \<Rightarrow> error + ('v report' \<times> 'v vars')" where
  "script' A c g =
     (if equilibrium_data' c = [] then Inl IndexError else
     (if fspline_raises A (x_eq' c) (y_eq' c) then Inl SplineError else
      case feed_line' A (xF' c) (q' c) of Inl e \<Rightarrow> Inl e | Inr (x_feed, y_feed) \<Rightarrow>
     (case find_intersection' A (x_eq' c) (y_eq' c) (xF' c) (xD' c) of
        None \<Rightarrow> Inl TypeError
      | Some (xiE, yiE) \<Rightarrow>
     (let R_min = fdiv A (fsub A (xD' c) yiE) (fsub A yiE xiE);
          R = fmul A (R_multiplier' c) R_min;
          (x_rect, y_rect) = rectifying_line' A (xD' c) R in
      case intersection_x' A c R of Inl e \<Rightarrow> Inl e | Inr xiF \<Rightarrow>
     (let yiF = fadd A (fmul A (fdiv A R (fadd A R (flit A 1))) xiF)
                       (fdiv A (xD' c) (fadd A R (flit A 1)));
          (x_strip, y_strip) = stripping_line' A (xW' c) xiF yiF;
          s0 = g\<lparr>stages' := [], current_x' := xD' c, iteration_count' := 0\<rparr> in
      case stage_loop' A c R xiF yiF s0 of Inl e \<Rightarrow> Inl e | Inr s \<Rightarrow>
     (let w = (iteration_count' s \<ge> max_iterations) in
      case column_sizing' A c of Inl e \<Rightarrow> Inl e | Inr d \<Rightarrow>
        Inr (\<lparr> warning' = w,
                reported_R_min' = R_min,
                reported_R' = R,
                number_of_stages' = length (stages' s) div 2,
                feed_stage' = length (filter (\<lambda>p. flt A xiF (fst p)) (stages' s)),
                column_diameter' = d,
                reported_tray_spacing' = tray_spacing' c \<rparr>, s)))))))"

text \<open>The exact arithmetic of the first part, and a configuration read in it.\<close>

definition exact :: "real arith" where
  "exact =
     \<lparr> flit = of_rat, fpi = pi, fadd = (+), fsub = (-), fmul = (*), fdiv = (/), fneg = uminus,
       flt = (<), feq = (=), fabs = abs, fsqrt = sqrt, flinspace = linspace,
       fspline_raises = (\<lambda>xe ye. \<not> (sorted_wrt (<) xe \<and> 3 < length xe)) \<rparr>"

definition in_exact :: "config \<Rightarrow> real config'" where
  "in_exact c =
     \<lparr> xF' = xF c, xD' = xD c, xW' = xW c, R_multiplier' = R_multiplier c, q' = q c,
       vapor_velocity' = vapor_velocity c, tray_spacing' = tray_spacing c,
       equilibrium_data' = equilibrium_data c \<rparr>"

definition in_exact_vars :: "vars \<Rightarrow> real vars'" where
  "in_exact_vars s =
     \<lparr> stages' = stages s, current_x' = current_x s, iteration_count' = iteration_count s,
       current_y' = current_y s, next_x' = next_x s \<rparr>"

definition in_exact_report :: "report \<Rightarrow> real report'" where
  "in_exact_report r =
     \<lparr> warning' = warning r, reported_R_min' = reported_R_min r, reported_R' = reported_R r,
       number_of_stages' = number_of_stages r, feed_stage' = feed_stage r,
       column_diameter' = column_diameter r, reported_tray_spacing' = reported_tray_spacing r \<rparr>"

section \<open>Properties\<close>

subsection \<open>Indexing and binary search\<close>

lemma index_nth: "0 \<le> i \<Longrightarrow> i < int (length xs) \<Longrightarrow> index xs i = Inr (xs ! nat i)"
  by (simp add: index_def)

lemma index_last: "xs \<noteq> [] \<Longrightarrow> index xs (- 1) = Inr (last xs)"
  by (cases xs rule: rev_cases) (auto simp: index_def nat_diff_distrib nth_append)

lemma index_first: "xs \<noteq> [] \<Longrightarrow> index xs 0 = Inr (xs ! 0)"
  by (simp add: index_def)

lemma search_loop_bracket:
  assumes "length xe = length ye" "0 \<le> low" "high < int (length ye)" "low \<le> high + 1"
    and "low = 0 \<or> ye ! nat (low - 1) < y"
    and "high = int (length ye) - 1 \<or> y < ye ! nat (high + 1)"
  shows "(\<exists>i < length ye. ye ! i = y \<and> search_loop y xe ye low high = Inr (Inl (xe ! i))) \<or>
         (\<exists>l. search_loop y xe ye low high = Inr (Inr l) \<and> 0 \<le> l \<and> l \<le> int (length ye) \<and>
              (l = 0 \<or> ye ! nat (l - 1) < y) \<and> (l = int (length ye) \<or> y < ye ! nat l))"
  using assms
proof (induction y xe ye low high rule: search_loop.induct)
  case (1 y xe ye low high)
  show ?case
  proof (cases "low \<le> high")
    case False
    with "1.prems" have eq: "low = high + 1" by simp
    have "search_loop y xe ye low high = Inr (Inr low)"
      using False by (subst search_loop.simps) simp
    with "1.prems" eq show ?thesis by auto
  next
    case True
    define mid where "mid = (low + high) div 2"
    have mid: "low \<le> mid" "mid \<le> high" using True by (auto simp: mid_def)
    with "1.prems" have rng: "0 \<le> mid" "mid < int (length ye)" "mid < int (length xe)" by auto
    have iy: "index ye mid = Inr (ye ! nat mid)" using rng by (simp add: index_nth)
    have ix: "index xe mid = Inr (xe ! nat mid)" using rng by (simp add: index_nth)
    consider (lt) "ye ! nat mid < y" | (gt) "y < ye ! nat mid" | (eq) "ye ! nat mid = y"
      by fastforce
    then show ?thesis
    proof cases
      case lt
      have unf: "search_loop y xe ye low high = search_loop y xe ye (mid + 1) high"
        using True lt iy by (subst search_loop.simps) (simp add: mid_def Let_def)
      have "(\<exists>i < length ye. ye ! i = y \<and> search_loop y xe ye (mid + 1) high = Inr (Inl (xe ! i))) \<or>
         (\<exists>l. search_loop y xe ye (mid + 1) high = Inr (Inr l) \<and> 0 \<le> l \<and> l \<le> int (length ye) \<and>
              (l = 0 \<or> ye ! nat (l - 1) < y) \<and> (l = int (length ye) \<or> y < ye ! nat l))"
        using "1.IH"(1)[OF True mid_def iy lt] lt "1.prems" mid rng
        by simp
      then show ?thesis by (simp only: unf)
    next
      case gt
      have unf: "search_loop y xe ye low high = search_loop y xe ye low (mid - 1)"
        using True gt iy by (subst search_loop.simps) (simp add: mid_def Let_def)
      have "(\<exists>i < length ye. ye ! i = y \<and> search_loop y xe ye low (mid - 1) = Inr (Inl (xe ! i))) \<or>
         (\<exists>l. search_loop y xe ye low (mid - 1) = Inr (Inr l) \<and> 0 \<le> l \<and> l \<le> int (length ye) \<and>
              (l = 0 \<or> ye ! nat (l - 1) < y) \<and> (l = int (length ye) \<or> y < ye ! nat l))"
        using "1.IH"(2)[OF True mid_def iy _ gt] gt "1.prems" mid rng
        by simp
      then show ?thesis by (simp only: unf)
    next
      case eq
      have "search_loop y xe ye low high = Inr (Inl (xe ! nat mid))"
        using True eq iy ix by (subst search_loop.simps) (simp add: mid_def Let_def)
      moreover have "nat mid < length ye" using rng by simp
      ultimately show ?thesis using eq by blast
    qed
  qed
qed

lemma bsi_cases:
  assumes len: "length xe = length ye" and ne: "ye \<noteq> []"
  shows "(\<exists>i < length ye. ye ! i = y \<and> binary_search_interpolate y xe ye = Inr (xe ! i)) \<or>
         (y < ye ! 0 \<and> binary_search_interpolate y xe ye = Inr (xe ! 0)) \<or>
         (last ye < y \<and> binary_search_interpolate y xe ye = Inr (last xe)) \<or>
         (\<exists>j. Suc j < length ye \<and> ye ! j < y \<and> y < ye ! Suc j \<and>
              binary_search_interpolate y xe ye =
                Inr (xe ! j + (y - ye ! j) * (xe ! Suc j - xe ! j) / (ye ! Suc j - ye ! j)))"
proof -
  from ne len have nex: "xe \<noteq> []" by auto
  have n0: "0 < length ye" using ne by simp
  from search_loop_bracket[OF len, of 0 "int (length ye) - 1" y]
  consider (found) i where "i < length ye" "ye ! i = y" "search_loop y xe ye 0 (int (length ye) - 1) = Inr (Inl (xe ! i))"
    | (low) l where "search_loop y xe ye 0 (int (length ye) - 1) = Inr (Inr l)" "0 \<le> l" "l \<le> int (length ye)"
        "l = 0 \<or> ye ! nat (l - 1) < y" "l = int (length ye) \<or> y < ye ! nat l"
    using n0 by auto
  then show ?thesis
  proof cases
    case found
    then show ?thesis by (auto simp: binary_search_interpolate_def)
  next
    case low
    consider (zero) "l = 0" | (top) "l = int (length ye)" | (mid) "0 < l" "l < int (length ye)"
      using low(2,3) by linarith
    then show ?thesis
    proof cases
      case zero
      with low n0 have "y < ye ! 0" by auto
      moreover have "binary_search_interpolate y xe ye = Inr (xe ! 0)"
        using low(1) zero nex by (simp add: binary_search_interpolate_def index_first)
      ultimately show ?thesis by blast
    next
      case top
      with low n0 have "ye ! nat (l - 1) < y" by auto
      moreover have "nat (l - 1) = length ye - 1" using top by simp
      ultimately have "last ye < y" using ne by (simp add: last_conv_nth)
      moreover have "binary_search_interpolate y xe ye = Inr (last xe)"
        using low(1) top nex n0 by (simp add: binary_search_interpolate_def index_last)
      ultimately show ?thesis by blast
    next
      case mid
      define j where "j = nat (l - 1)"
      have nl: "nat l = Suc j" using mid by (simp add: j_def)
      have l: "l = int (Suc j)" "l - 1 = int j" using mid nl by linarith+
      have sj: "Suc j < length ye" using mid nl by linarith
      have y1: "ye ! j < y" using low(4) mid(1) by (simp add: j_def)
      have y2: "y < ye ! Suc j" using low(5) mid(2) nl by simp
      have ne0: "ye ! Suc j - ye ! j \<noteq> 0" using y1 y2 by simp
      have i1: "index xe (l - 1) = Inr (xe ! j)" "index ye (l - 1) = Inr (ye ! j)"
        using sj len by (simp_all add: l(2) index_nth)
      have i2: "index xe l = Inr (xe ! Suc j)" "index ye l = Inr (ye ! Suc j)"
        using sj len mid nl index_nth[of l xe] index_nth[of l ye] by simp_all
      have "interpolate y xe ye l =
              Inr (xe ! j + (y - ye ! j) * (xe ! Suc j - xe ! j) / (ye ! Suc j - ye ! j))"
        using ne0 by (simp add: interpolate_def i1 i2)
      then have "binary_search_interpolate y xe ye =
              Inr (xe ! j + (y - ye ! j) * (xe ! Suc j - xe ! j) / (ye ! Suc j - ye ! j))"
        using low(1) mid by (simp add: binary_search_interpolate_def)
      with sj y1 y2 show ?thesis by blast
    qed
  qed
qed

lemma strict_nth_less_iff:
  assumes "sorted_wrt (<) (ys :: real list)" "i < length ys" "j < length ys"
  shows "ys ! i < ys ! j \<longleftrightarrow> i < j"
proof
  assume "i < j" then show "ys ! i < ys ! j" using assms by (simp add: sorted_wrt_nth_less)
next
  assume lt: "ys ! i < ys ! j"
  show "i < j"
  proof (rule ccontr)
    assume "\<not> i < j"
    then consider "i = j" | "j < i" by linarith
    then show False
    proof cases
      case 1 with lt show False by simp
    next
      case 2 then have "ys ! j < ys ! i" using assms by (simp add: sorted_wrt_nth_less)
      with lt show False by simp
    qed
  qed
qed

lemmas default_simps = default_config_def default_table_def x_eq_def y_eq_def

text \<open>
  C3: on a table whose \<open>y\<close> column is strictly ascending, the inversion returns the tabulated
  \<open>x\<close> itself when the target equals a tabulated \<open>y\<close>, the first \<open>x\<close> when the target lies
  below the first \<open>y\<close>, the last \<open>x\<close> when it lies above the last \<open>y\<close>, and otherwise the
  linear interpolation between the two neighbouring rows that bracket the target.
\<close>

theorem C3_inversion:
  assumes len: "length xe = length ye" and ne: "ye \<noteq> []" and srt: "sorted_wrt (<) ye"
  shows "(\<forall>i < length ye. y = ye ! i \<longrightarrow> binary_search_interpolate y xe ye = Inr (xe ! i)) \<and>
         (y < ye ! 0 \<longrightarrow> binary_search_interpolate y xe ye = Inr (xe ! 0)) \<and>
         (last ye < y \<longrightarrow> binary_search_interpolate y xe ye = Inr (last xe)) \<and>
         (\<forall>i. Suc i < length ye \<longrightarrow> ye ! i < y \<longrightarrow> y < ye ! Suc i \<longrightarrow>
              binary_search_interpolate y xe ye =
                Inr (xe ! i + (y - ye ! i) * (xe ! Suc i - xe ! i) / (ye ! Suc i - ye ! i)))"
proof -
  have n0: "0 < length ye" using ne by simp
  have lastn: "last ye = ye ! (length ye - 1)" using ne by (simp add: last_conv_nth)
  have iff: "ye ! i < ye ! j \<longleftrightarrow> i < j" if "i < length ye \<or> Suc i < length ye" "j < length ye" for i j
    using strict_nth_less_iff[OF srt, of i j] that by auto
  note cases = bsi_cases[OF len ne, of y]
  have a: "binary_search_interpolate y xe ye = Inr (xe ! i)" if i: "i < length ye" "y = ye ! i" for i
    using cases
  proof (elim disjE exE conjE)
    fix k assume "k < length ye" "ye ! k = y" "binary_search_interpolate y xe ye = Inr (xe ! k)"
    moreover have "k = i"
    proof (rule ccontr)
      assume "k \<noteq> i"
      then consider "k < i" | "i < k" by linarith
      then show False using iff[of k i] iff[of i k] i \<open>k < length ye\<close> \<open>ye ! k = y\<close> by cases auto
    qed
    ultimately show ?thesis by simp
  next
    assume "y < ye ! 0" then show ?thesis using iff[of i 0] i n0 by simp
  next
    assume "last ye < y" then show ?thesis using iff[of "length ye - 1" i] i n0 lastn by simp
  next
    fix j assume "Suc j < length ye" "ye ! j < y" "y < ye ! Suc j"
    then show ?thesis using iff[of j i] iff[of i "Suc j"] i by simp
  qed
  have b: "binary_search_interpolate y xe ye = Inr (xe ! 0)" if lo: "y < ye ! 0"
    using cases
  proof (elim disjE exE conjE)
    fix k assume "k < length ye" "ye ! k = y"
    then show ?thesis using iff[of k 0] lo n0 by simp
  next
    assume "binary_search_interpolate y xe ye = Inr (xe ! 0)" then show ?thesis .
  next
    assume "last ye < y" then show ?thesis using iff[of "length ye - 1" 0] lo n0 lastn by simp
  next
    fix j assume "Suc j < length ye" "ye ! j < y"
    then show ?thesis using iff[of j 0] lo n0 by simp
  qed
  have c: "binary_search_interpolate y xe ye = Inr (last xe)" if hi: "last ye < y"
    using cases
  proof (elim disjE exE conjE)
    fix k assume "k < length ye" "ye ! k = y"
    then show ?thesis using iff[of "length ye - 1" k] hi n0 lastn by simp
  next
    assume "y < ye ! 0" then show ?thesis using iff[of "length ye - 1" 0] hi n0 lastn by simp
  next
    assume "binary_search_interpolate y xe ye = Inr (last xe)" then show ?thesis .
  next
    fix j assume "Suc j < length ye" "y < ye ! Suc j"
    then show ?thesis using iff[of "length ye - 1" "Suc j"] hi n0 lastn by simp
  qed
  have d: "binary_search_interpolate y xe ye =
             Inr (xe ! i + (y - ye ! i) * (xe ! Suc i - xe ! i) / (ye ! Suc i - ye ! i))"
    if i: "Suc i < length ye" "ye ! i < y" "y < ye ! Suc i" for i
    using cases
  proof (elim disjE exE conjE)
    fix k assume "k < length ye" "ye ! k = y"
    then show ?thesis using iff[of i k] iff[of k "Suc i"] i by simp
  next
    assume "y < ye ! 0" then show ?thesis using iff[of i 0] i n0 by simp
  next
    assume "last ye < y" then show ?thesis using iff[of "length ye - 1" "Suc i"] i n0 lastn by simp
  next
    fix j assume j: "Suc j < length ye" "ye ! j < y" "y < ye ! Suc j"
      and r: "binary_search_interpolate y xe ye =
                Inr (xe ! j + (y - ye ! j) * (xe ! Suc j - xe ! j) / (ye ! Suc j - ye ! j))"
    have "j < Suc i" using iff[of j "Suc i"] i j by simp
    moreover have "i < Suc j" using iff[of i "Suc j"] i j by simp
    ultimately have "j = i" by simp
    with r show ?thesis by simp
  qed
  show ?thesis using a b c d by blast
qed

theorem C3_inversion_witness:
  "length (x_eq default_config) = length (y_eq default_config) \<and> y_eq default_config \<noteq> [] \<and>
   sorted_wrt (<) (y_eq default_config) \<and>
   binary_search_interpolate 0.63 (x_eq default_config) (y_eq default_config) = Inr 0.4 \<and>
   binary_search_interpolate 0.1 (x_eq default_config) (y_eq default_config) = Inr 0.1 \<and>
   binary_search_interpolate 0.99 (x_eq default_config) (y_eq default_config) = Inr 0.9 \<and>
   binary_search_interpolate 0.575 (x_eq default_config) (y_eq default_config) = Inr 0.35"
proof -
  have h1: "length (x_eq default_config) = length (y_eq default_config)"
    by (simp add: x_eq_def y_eq_def)
  have h2: "y_eq default_config \<noteq> []" by (simp add: default_simps)
  have h3: "sorted_wrt (<) (y_eq default_config)" by (simp add: default_simps)
  have a: "binary_search_interpolate 0.63 (x_eq default_config) (y_eq default_config) = Inr 0.4"
    using C3_inversion[OF h1 h2 h3, of "0.63", THEN conjunct1, rule_format, of 3]
    by (simp add: default_simps)
  have b: "binary_search_interpolate 0.1 (x_eq default_config) (y_eq default_config) = Inr 0.1"
    using C3_inversion[OF h1 h2 h3, of "0.1", THEN conjunct2, THEN conjunct1]
    by (simp add: default_simps)
  have c: "binary_search_interpolate 0.99 (x_eq default_config) (y_eq default_config) = Inr 0.9"
    using C3_inversion[OF h1 h2 h3, of "0.99", THEN conjunct2, THEN conjunct2, THEN conjunct1]
    by (simp add: default_simps)
  have d: "binary_search_interpolate 0.575 (x_eq default_config) (y_eq default_config) = Inr 0.35"
    using C3_inversion[OF h1 h2 h3, of "0.575", THEN conjunct2, THEN conjunct2, THEN conjunct2,
        rule_format, of 2]
    by (simp add: default_simps)
  show ?thesis using h1 h2 h3 a b c d by blast
qed

text \<open>
  C10: on a non-empty table whose \<open>x\<close> column is ascending, the inversion returns a value for
  every target (no index error, no division by zero; the search is a total function), and
  that value lies between the first and the last tabulated \<open>x\<close>.
\<close>

theorem C10_clamped:
  assumes len: "length xe = length ye" and ne: "ye \<noteq> []" and srt: "sorted xe"
  shows "\<exists>v. binary_search_interpolate y xe ye = Inr v \<and> xe ! 0 \<le> v \<and> v \<le> last xe"
proof -
  have n0: "0 < length xe" using ne len by simp
  have lastn: "last xe = xe ! (length xe - 1)" using n0 by (simp add: last_conv_nth)
  have mono: "xe ! i \<le> xe ! j" if "i \<le> j" "j < length xe" for i j
    using srt that by (simp add: sorted_nth_mono)
  from bsi_cases[OF len ne, of y] show ?thesis
  proof (elim disjE exE conjE)
    fix i assume "i < length ye" "binary_search_interpolate y xe ye = Inr (xe ! i)"
    then show ?thesis using mono[of 0 i] mono[of i "length xe - 1"] len lastn by auto
  next
    assume "binary_search_interpolate y xe ye = Inr (xe ! 0)"
    then show ?thesis using mono[of 0 "length xe - 1"] n0 lastn by auto
  next
    assume "binary_search_interpolate y xe ye = Inr (last xe)"
    then show ?thesis using mono[of 0 "length xe - 1"] n0 lastn by auto
  next
    fix j assume j: "Suc j < length ye" "ye ! j < y" "y < ye ! Suc j"
      and r: "binary_search_interpolate y xe ye =
                Inr (xe ! j + (y - ye ! j) * (xe ! Suc j - xe ! j) / (ye ! Suc j - ye ! j))"
    define t where "t = (y - ye ! j) / (ye ! Suc j - ye ! j)"
    have t: "0 \<le> t" "t \<le> 1" using j by (simp_all add: t_def)
    have dx: "0 \<le> xe ! Suc j - xe ! j" using mono[of j "Suc j"] j len by simp
    have v: "(y - ye ! j) * (xe ! Suc j - xe ! j) / (ye ! Suc j - ye ! j) = t * (xe ! Suc j - xe ! j)"
      by (simp add: t_def)
    have lo: "0 \<le> t * (xe ! Suc j - xe ! j)" using t dx by simp
    have hi: "t * (xe ! Suc j - xe ! j) \<le> xe ! Suc j - xe ! j"
      using t dx by (simp add: mult_left_le_one_le)
    have "xe ! 0 \<le> xe ! j" using mono[of 0 j] j len by simp
    moreover have "xe ! Suc j \<le> last xe" using mono[of "Suc j" "length xe - 1"] j len lastn by simp
    ultimately show ?thesis using r v lo hi by auto
  qed
qed

theorem C10_clamped_witness:
  "length (x_eq default_config) = length (y_eq default_config) \<and> y_eq default_config \<noteq> [] \<and>
   sorted (x_eq default_config) \<and>
   (\<exists>v. binary_search_interpolate 0.5 (x_eq default_config) (y_eq default_config) = Inr v \<and>
        0.1 \<le> v \<and> v \<le> 0.9)"
proof -
  have h1: "length (x_eq default_config) = length (y_eq default_config)"
    by (simp add: x_eq_def y_eq_def)
  have h2: "y_eq default_config \<noteq> []" by (simp add: default_simps)
  have h3: "sorted (x_eq default_config)" by (simp add: default_simps)
  show ?thesis using h1 h2 h3 C10_clamped[OF h1 h2 h3, of "0.5"]
    by (simp add: default_simps)
qed

subsection \<open>Minimum reflux and feed line\<close>

text \<open>
  C1: on the default configuration the first table row whose \<open>y\<close> exceeds \<open>xF = 0.4\<close> is the
  third one, \<open>(0.3, 0.52)\<close>, and that is what the lookup returns; the row \<open>(0.4, 0.63)\<close>, the
  one on the feed line \<open>x = xF\<close>, is the fourth. So the script computes and prints
  \<open>R_min = 23/11\<close> and \<open>R = 69/22\<close>, which are not within \<open>0.01\<close> of \<open>1.52\<close> and \<open>2.28\<close>.
\<close>

theorem C1_default_reflux:
  "equilibrium_data default_config ! 3 = (xF default_config, 0.63) \<and>
   equilibrium_data default_config ! 2 = (0.3, 0.52) \<and>
   \<not> snd (equilibrium_data default_config ! 0) > xF default_config \<and>
   \<not> snd (equilibrium_data default_config ! 1) > xF default_config \<and>
   snd (equilibrium_data default_config ! 2) > xF default_config \<and>
   find_intersection (x_eq default_config) (y_eq default_config) (xF default_config) (xD default_config)
     = Some (0.3, 0.52) \<and>
   minimum_reflux default_config = Inr (0.3, 0.52, 23 / 11) \<and>
   (\<exists>r s. script default_config g = Inr (r, s) \<and>
      reported_R_min r = 23 / 11 \<and> reported_R r = 69 / 22 \<and>
      \<not> \<bar>reported_R_min r - 1.52\<bar> \<le> 0.01 \<and>
      \<not> \<bar>reported_R r - 2.28\<bar> \<le> 0.01)"
  by (simp add: script_def spline_fit_def stage_stepping_def minimum_reflux_def find_intersection_def
      rectifying_line_def stripping_line_def intersection_x_def column_sizing_def feed_line_def
      stage_loop.simps loop_body_def Let_def tolerance_def max_iterations_def
      binary_search_interpolate_def search_loop.simps interpolate_def index_def default_simps)

text \<open>
  C6: when no table row has a \<open>y\<close> above \<open>xF\<close>, \<^verbatim>\<open>find_intersection\<close> returns no pair, and
  the statement that unpacks its result raises \<open>TypeError\<close>: no value of \<open>R_min\<close> is produced.
\<close>

theorem C6_no_crossing:
  assumes "\<forall>p \<in> set (equilibrium_data c). \<not> snd p > xF c"
  shows "find_intersection (x_eq c) (y_eq c) (xF c) (xD c) = None \<and>
         minimum_reflux c = Inl TypeError"
proof -
  have "find_from (map fst ps) (map snd ps) xf = None" if "\<forall>p \<in> set ps. \<not> snd p > xf" for ps xf
    using that by (induction ps) auto
  then have "find_intersection (x_eq c) (y_eq c) (xF c) (xD c) = None"
    using assms by (simp add: find_intersection_def x_eq_def y_eq_def)
  then show ?thesis by (simp add: minimum_reflux_def)
qed

theorem C6_no_crossing_witness:
  "list_all (\<lambda>p. \<not> snd p > xF (default_config\<lparr>xF := 0.96\<rparr>))
     (equilibrium_data (default_config\<lparr>xF := 0.96\<rparr>)) \<and>
   find_intersection (x_eq (default_config\<lparr>xF := 0.96\<rparr>)) (y_eq (default_config\<lparr>xF := 0.96\<rparr>)) 0.96 0.98 = None \<and>
   minimum_reflux (default_config\<lparr>xF := 0.96\<rparr>) = Inl TypeError"
proof -
  have h: "\<forall>p \<in> set (equilibrium_data (default_config\<lparr>xF := 0.96\<rparr>)). \<not> snd p > xF (default_config\<lparr>xF := 0.96\<rparr>)"
    by (simp add: default_simps)
  show ?thesis using h C6_no_crossing[OF h] by (simp add: default_config_def list_all_iff)
qed

lemma linspace_nth: "i < n \<Longrightarrow> linspace a b n ! i = a + real i * ((b - a) / real (n - 1))"
  by (simp add: linspace_def)

lemma linspace_length: "length (linspace a b n) = n"
  by (simp add: linspace_def)

text \<open>
  C8: for \<open>q = 1\<close> the feed line is the two-point vertical segment from \<open>(xF, 0)\<close> to
  \<open>(xF, 1)\<close>; for any other \<open>q\<close> it is sampled at 100 evenly spaced abscissae from 0 to 1 on
  the line of slope \<open>q / (q - 1)\<close> and intercept \<open>- xF / (q - 1)\<close>.
\<close>

theorem C8_feed_line:
  "feed_line xf 1 = ([xf, xf], [0, 1]) \<and>
   (qq \<noteq> 1 \<longrightarrow>
      (\<exists>xs ys. feed_line xf qq = (xs, ys) \<and> length xs = 100 \<and> length ys = 100 \<and>
         xs ! 0 = 0 \<and> xs ! 99 = 1 \<and>
         (\<forall>i < 100. xs ! i = real i / 99 \<and> 0 \<le> xs ! i \<and> xs ! i \<le> 1 \<and>
                   ys ! i = qq / (qq - 1) * (xs ! i) + (- xf / (qq - 1)))))"
  by (auto simp: feed_line_def Let_def linspace_nth linspace_length)

theorem C8_feed_line_witness:
  "(1/2::real) \<noteq> 1 \<and> feed_line 0.4 1 = ([0.4, 0.4], [0, 1]) \<and>
   (\<exists>xs ys. feed_line 0.4 (1/2) = (xs, ys) \<and> length xs = 100 \<and> xs ! 0 = 0 \<and> xs ! 99 = 1 \<and>
      ys ! 0 = 0.8 \<and> ys ! 99 = - 0.2)"
proof -
  have h: "(1/2::real) \<noteq> 1" by simp
  from C8_feed_line[of "0.4" "1/2"] h
  obtain xs ys where f: "feed_line 0.4 (1/2) = (xs, ys)" "length xs = 100" "xs ! 0 = 0" "xs ! 99 = 1"
    and a: "\<forall>i < 100. xs ! i = real i / 99 \<and> 0 \<le> xs ! i \<and> xs ! i \<le> 1 \<and>
                   ys ! i = (1/2) / (1/2 - 1) * (xs ! i) + (- 0.4 / (1/2 - 1))"
    by auto
  have "ys ! 0 = 0.8" using a[rule_format, of 0] f by simp
  moreover have "ys ! 99 = - 0.2" using a[rule_format, of 99] f by simp
  ultimately show ?thesis using f h C8_feed_line[of "0.4" "1/2"] by auto
qed

subsection \<open>The stage-stepping loop\<close>

lemma bsi_total:
  assumes "equilibrium_data c \<noteq> []"
  shows "\<exists>v. binary_search_interpolate y (x_eq c) (y_eq c) = Inr v"
proof -
  have len: "length (x_eq c) = length (y_eq c)" by (simp add: x_eq_def y_eq_def)
  have ne: "y_eq c \<noteq> []" using assms by (simp add: y_eq_def)
  from bsi_cases[OF len ne, of y] show ?thesis by blast
qed

lemma loop_body_Inr:
  assumes "loop_body c R xiF yiF s = Inr (b, s')"
  shows "iteration_count s' = Suc (iteration_count s)"
    and "current_y s' = (if current_x s > xiF then R / (R + 1) * current_x s + xD c / (R + 1)
                         else (yiF - xW c) / (xiF - xW c) * (current_x s - xW c) + xW c)"
    and "binary_search_interpolate (current_y s') (x_eq c) (y_eq c) = Inr (next_x s')"
    and "stages s' = stages s @ [(current_x s, current_y s'), (next_x s', current_y s')]"
    and "b \<longleftrightarrow> \<bar>current_x s - next_x s'\<bar> < tolerance"
    and "current_x s' = (if b then current_x s else next_x s')"
  using assms by (auto simp: loop_body_def Let_def split: sum.splits if_splits)

lemma loop_body_total:
  assumes "equilibrium_data c \<noteq> []"
  shows "\<exists>b s'. loop_body c R xiF yiF s = Inr (b, s')"
proof -
  have tot: "binary_search_interpolate y (x_eq c) (y_eq c) \<noteq> Inl e" for y e
    using bsi_total[OF assms, of y] by auto
  show ?thesis
    by (auto simp: loop_body_def Let_def tot split: sum.splits)
qed

lemma stage_loop_total:
  assumes "equilibrium_data c \<noteq> []"
  shows "\<exists>s'. stage_loop c R xiF yiF s = Inr s'"
  using assms
proof (induction c R xiF yiF s rule: stage_loop.induct)
  case (1 c R xiF yiF s)
  show ?case
  proof (cases "current_x s > xW c + tolerance \<and> iteration_count s < max_iterations")
    case False
    then show ?thesis by (subst stage_loop.simps) auto
  next
    case True
    obtain b s1 where body: "loop_body c R xiF yiF s = Inr (b, s1)"
      using loop_body_total[OF "1.prems"] by blast
    show ?thesis
    proof (cases b)
      case True
      with \<open>current_x s > xW c + tolerance \<and> iteration_count s < max_iterations\<close> body
      show ?thesis by (subst stage_loop.simps) simp
    next
      case False
      from "1.IH"[OF True body refl False "1.prems"]
      obtain s' where "stage_loop c R xiF yiF s1 = Inr s'" by blast
      with True False body show ?thesis by (subst stage_loop.simps) simp
    qed
  qed
qed

lemma stage_loop_points:
  assumes "stage_loop c R xiF yiF s = Inr s'"
  shows "\<exists>pts. stages s' = stages s @ pts \<and>
           iteration_count s \<le> iteration_count s' \<and>
           length pts = 2 * (iteration_count s' - iteration_count s) \<and>
           (iteration_count s \<le> max_iterations \<longrightarrow> iteration_count s' \<le> max_iterations) \<and>
           (\<forall>k. 2 * k < length pts \<longrightarrow>
              snd (pts ! (2 * k)) =
                (if fst (pts ! (2 * k)) > xiF then R / (R + 1) * fst (pts ! (2 * k)) + xD c / (R + 1)
                 else (yiF - xW c) / (xiF - xW c) * (fst (pts ! (2 * k)) - xW c) + xW c) \<and>
              snd (pts ! (2 * k + 1)) = snd (pts ! (2 * k)))"
  using assms
proof (induction c R xiF yiF s rule: stage_loop.induct)
  case (1 c R xiF yiF s)
  show ?case
  proof (cases "current_x s > xW c + tolerance \<and> iteration_count s < max_iterations")
    case False
    with "1.prems" have "s' = s" by (subst (asm) stage_loop.simps) auto
    then show ?thesis by simp
  next
    case True
    from "1.prems" True obtain b s1 where body: "loop_body c R xiF yiF s = Inr (b, s1)"
      and rest: "(if b then Inr s1 else stage_loop c R xiF yiF s1) = Inr s'"
      by (subst (asm) stage_loop.simps) (auto split: sum.splits)
    note B = loop_body_Inr[OF body]
    define p1 where "p1 = (current_x s, current_y s1)"
    define p2 where "p2 = (next_x s1, current_y s1)"
    have st1: "stages s1 = stages s @ [p1, p2]" using B(4) by (simp add: p1_def p2_def)
    have on1: "snd p1 = (if fst p1 > xiF then R / (R + 1) * fst p1 + xD c / (R + 1)
                 else (yiF - xW c) / (xiF - xW c) * (fst p1 - xW c) + xW c)" "snd p2 = snd p1"
      using B(2) by (simp_all add: p1_def p2_def)
    have cnt1: "iteration_count s1 \<le> max_iterations" using True B(1) by simp
    show ?thesis
    proof (cases b)
      case True
      with rest have "s' = s1" by simp
      then show ?thesis using st1 B(1) on1 cnt1 by (intro exI[of _ "[p1, p2]"]) (auto simp: less_Suc_eq)
    next
      case False
      with rest have r: "stage_loop c R xiF yiF s1 = Inr s'" by simp
      from "1.IH"[OF True body refl False r] obtain pts where
        P: "stages s' = stages s1 @ pts" "iteration_count s1 \<le> iteration_count s'"
           "length pts = 2 * (iteration_count s' - iteration_count s1)"
           "iteration_count s1 \<le> max_iterations \<longrightarrow> iteration_count s' \<le> max_iterations"
           "\<forall>k. 2 * k < length pts \<longrightarrow>
              snd (pts ! (2 * k)) =
                (if fst (pts ! (2 * k)) > xiF then R / (R + 1) * fst (pts ! (2 * k)) + xD c / (R + 1)
                 else (yiF - xW c) / (xiF - xW c) * (fst (pts ! (2 * k)) - xW c) + xW c) \<and>
              snd (pts ! (2 * k + 1)) = snd (pts ! (2 * k))"
        by blast
      have a: "stages s' = stages s @ (p1 # p2 # pts)" using P(1) st1 by simp
      have b: "iteration_count s \<le> iteration_count s'" using P(2) B(1) by simp
      have c: "length (p1 # p2 # pts) = 2 * (iteration_count s' - iteration_count s)"
        using P(2,3) B(1) by simp
      have d: "iteration_count s' \<le> max_iterations" using P(4) cnt1 by simp
      have e: "snd ((p1 # p2 # pts) ! (2 * k)) =
                (if fst ((p1 # p2 # pts) ! (2 * k)) > xiF
                 then R / (R + 1) * fst ((p1 # p2 # pts) ! (2 * k)) + xD c / (R + 1)
                 else (yiF - xW c) / (xiF - xW c) * (fst ((p1 # p2 # pts) ! (2 * k)) - xW c) + xW c) \<and>
              snd ((p1 # p2 # pts) ! (2 * k + 1)) = snd ((p1 # p2 # pts) ! (2 * k))"
        if k: "2 * k < length (p1 # p2 # pts)" for k
      proof (cases k)
        case 0
        then show ?thesis using on1 by simp
      next
        case (Suc j)
        then have "2 * j < length pts" using k by simp
        with P(5) Suc show ?thesis by simp
      qed
      show ?thesis using a b c d e by (intro exI[of _ "p1 # p2 # pts"]) blast
    qed
  qed
qed

lemmas run_simps = script_def spline_fit_def stage_stepping_def minimum_reflux_def find_intersection_def
  rectifying_line_def stripping_line_def intersection_x_def column_sizing_def feed_line_def
  stage_loop.simps loop_body_def Let_def tolerance_def max_iterations_def
  binary_search_interpolate_def search_loop.simps interpolate_def index_def

text \<open>
  C2: on the default configuration the run takes ten passes through the loop, and the
  abscissae of the recorded points, which are in order \<open>current_x\<close> and \<open>next_x\<close> of the
  first pass, \<open>current_x\<close> and \<open>next_x\<close> of the second pass, and so on (each \<open>current_x\<close>
  being the \<open>next_x\<close> of the pass before), never increase.
\<close>

theorem C2_default_monotone:
  "\<exists>r s. script default_config g = Inr (r, s) \<and> iteration_count s = 10 \<and>
     map fst (stages s) =
       [49/50, 9/10, 9/10, 727/910, 727/910, 55577/82810, 55577/82810, 16043847/30142840,
        16043847/30142840, 5081477473/12343492980, 5081477473/12343492980,
        336107217218/1029653039415, 336107217218/1029653039415,
        3673281978018407/15429007577953970, 3673281978018407/15429007577953970,
        71639466001607560053/453504819738801040210, 71639466001607560053/453504819738801040210,
        1/10, 1/10, 1/10] \<and>
     sorted_wrt (\<lambda>a b. b \<le> a) (map fst (stages s))"
  by (simp add: run_simps default_simps)

text \<open>
  C4: the reported number of stages is half the number of recorded points, and the reported
  feed stage is the number of recorded points whose abscissa exceeds \<open>xiF\<close>. On the default
  configuration 20 points are recorded, the number of stages is 10, and the feed stage is
  11: it exceeds the number of stages.
\<close>

theorem C4_default_feed_stage:
  "\<exists>r s. script default_config g = Inr (r, s) \<and>
     length (stages s) = 20 \<and>
     number_of_stages r = length (stages s) div 2 \<and>
     feed_stage r = length (filter (\<lambda>p. fst p > xF default_config) (stages s)) \<and>
     number_of_stages r = 10 \<and> feed_stage r = 11 \<and> \<not> feed_stage r \<le> number_of_stages r"
  by (simp add: run_simps default_simps)







lemma default_stepping:
  "\<exists>s. stage_stepping default_config (69/22) (2/5) (1229/2275) g = Inr (False, s) \<and>
     iteration_count s = 10 \<and>
     fst (stages s ! 0) = 49/50 \<and>
     fst (stages s ! 12) = 336107217218/1029653039415"
  by (simp add: run_simps default_simps)

text \<open>
  C7: in every pass the vapour composition is the value of the rectifying line at
  \<open>current_x\<close> when \<open>current_x > xiF\<close>, and the value of the stripping line when
  \<open>current_x \<le> xiF\<close>; this holds for the body of the loop, and for each pair of points a run
  records. The stripping line is the line through \<open>(xW, xW)\<close> and \<open>(xiF, yiF)\<close>.
\<close>

theorem C7_operating_line:
  assumes "stage_stepping c R xiF yiF g = Inr (w, s)"
  shows "(\<forall>k < iteration_count s.
            (fst (stages s ! (2 * k)) > xiF \<longrightarrow>
               snd (stages s ! (2 * k)) = R / (R + 1) * fst (stages s ! (2 * k)) + xD c / (R + 1)) \<and>
            (fst (stages s ! (2 * k)) \<le> xiF \<longrightarrow>
               snd (stages s ! (2 * k)) =
                 (yiF - xW c) / (xiF - xW c) * (fst (stages s ! (2 * k)) - xW c) + xW c) \<and>
            snd (stages s ! (2 * k + 1)) = snd (stages s ! (2 * k))) \<and>
         (\<forall>t b t'. loop_body c R xiF yiF t = Inr (b, t') \<longrightarrow>
            (current_x t > xiF \<longrightarrow> current_y t' = R / (R + 1) * current_x t + xD c / (R + 1)) \<and>
            (current_x t \<le> xiF \<longrightarrow>
               current_y t' = (yiF - xW c) / (xiF - xW c) * (current_x t - xW c) + xW c) \<and>
            stages t' = stages t @ [(current_x t, current_y t'), (next_x t', current_y t')]) \<and>
         (xiF \<noteq> xW c \<longrightarrow>
            (yiF - xW c) / (xiF - xW c) * (xW c - xW c) + xW c = xW c \<and>
            (yiF - xW c) / (xiF - xW c) * (xiF - xW c) + xW c = yiF)"
proof -
  define s0 where "s0 = g\<lparr>stages := [], current_x := xD c, iteration_count := 0\<rparr>"
  from assms have run: "stage_loop c R xiF yiF s0 = Inr s"
    by (auto simp: stage_stepping_def Let_def s0_def split: sum.splits)
  from stage_loop_points[OF run] obtain pts where
    pts: "stages s = stages s0 @ pts" "length pts = 2 * (iteration_count s - iteration_count s0)"
    and on: "\<forall>k. 2 * k < length pts \<longrightarrow>
              snd (pts ! (2 * k)) =
                (if fst (pts ! (2 * k)) > xiF then R / (R + 1) * fst (pts ! (2 * k)) + xD c / (R + 1)
                 else (yiF - xW c) / (xiF - xW c) * (fst (pts ! (2 * k)) - xW c) + xW c) \<and>
              snd (pts ! (2 * k + 1)) = snd (pts ! (2 * k))"
    by blast
  have eq: "stages s = pts" "length pts = 2 * iteration_count s" using pts by (simp_all add: s0_def)
  have a: "\<forall>k < iteration_count s.
            (fst (stages s ! (2 * k)) > xiF \<longrightarrow>
               snd (stages s ! (2 * k)) = R / (R + 1) * fst (stages s ! (2 * k)) + xD c / (R + 1)) \<and>
            (fst (stages s ! (2 * k)) \<le> xiF \<longrightarrow>
               snd (stages s ! (2 * k)) =
                 (yiF - xW c) / (xiF - xW c) * (fst (stages s ! (2 * k)) - xW c) + xW c) \<and>
            snd (stages s ! (2 * k + 1)) = snd (stages s ! (2 * k))"
  proof (rule allI, rule impI)
    fix k assume "k < iteration_count s"
    then have "2 * k < length pts" using eq(2) by simp
    with on have k: "snd (pts ! (2 * k)) =
                (if fst (pts ! (2 * k)) > xiF then R / (R + 1) * fst (pts ! (2 * k)) + xD c / (R + 1)
                 else (yiF - xW c) / (xiF - xW c) * (fst (pts ! (2 * k)) - xW c) + xW c)"
       "snd (pts ! (2 * k + 1)) = snd (pts ! (2 * k))" by blast+
    show "(fst (stages s ! (2 * k)) > xiF \<longrightarrow>
               snd (stages s ! (2 * k)) = R / (R + 1) * fst (stages s ! (2 * k)) + xD c / (R + 1)) \<and>
            (fst (stages s ! (2 * k)) \<le> xiF \<longrightarrow>
               snd (stages s ! (2 * k)) =
                 (yiF - xW c) / (xiF - xW c) * (fst (stages s ! (2 * k)) - xW c) + xW c) \<and>
            snd (stages s ! (2 * k + 1)) = snd (stages s ! (2 * k))"
      unfolding eq(1)
    proof (intro conjI impI)
      assume "xiF < fst (pts ! (2 * k))"
      then show "snd (pts ! (2 * k)) = R / (R + 1) * fst (pts ! (2 * k)) + xD c / (R + 1)"
        by (simp only: k(1) if_True)
    next
      assume "fst (pts ! (2 * k)) \<le> xiF"
      then have "\<not> xiF < fst (pts ! (2 * k))" by simp
      then show "snd (pts ! (2 * k)) = (yiF - xW c) / (xiF - xW c) * (fst (pts ! (2 * k)) - xW c) + xW c"
        by (simp only: k(1) if_False)
    next
      show "snd (pts ! (2 * k + 1)) = snd (pts ! (2 * k))" by (rule k(2))
    qed
  qed
  have b: "\<forall>t b t'. loop_body c R xiF yiF t = Inr (b, t') \<longrightarrow>
            (current_x t > xiF \<longrightarrow> current_y t' = R / (R + 1) * current_x t + xD c / (R + 1)) \<and>
            (current_x t \<le> xiF \<longrightarrow>
               current_y t' = (yiF - xW c) / (xiF - xW c) * (current_x t - xW c) + xW c) \<and>
            stages t' = stages t @ [(current_x t, current_y t'), (next_x t', current_y t')]"
  proof (intro allI, rule impI)
    fix t b t' assume body: "loop_body c R xiF yiF t = Inr (b, t')"
    note B = loop_body_Inr(2,4)[OF body]
    show "(current_x t > xiF \<longrightarrow> current_y t' = R / (R + 1) * current_x t + xD c / (R + 1)) \<and>
            (current_x t \<le> xiF \<longrightarrow>
               current_y t' = (yiF - xW c) / (xiF - xW c) * (current_x t - xW c) + xW c) \<and>
            stages t' = stages t @ [(current_x t, current_y t'), (next_x t', current_y t')]"
    proof (intro conjI impI)
      assume "xiF < current_x t"
      then show "current_y t' = R / (R + 1) * current_x t + xD c / (R + 1)"
        by (simp only: B(1) if_True)
    next
      assume "current_x t \<le> xiF"
      then have "\<not> xiF < current_x t" by simp
      then show "current_y t' = (yiF - xW c) / (xiF - xW c) * (current_x t - xW c) + xW c"
        by (simp only: B(1) if_False)
    next
      show "stages t' = stages t @ [(current_x t, current_y t'), (next_x t', current_y t')]"
        by (rule B(2))
    qed
  qed
  have c: "xiF \<noteq> xW c \<longrightarrow>
            (yiF - xW c) / (xiF - xW c) * (xW c - xW c) + xW c = xW c \<and>
            (yiF - xW c) / (xiF - xW c) * (xiF - xW c) + xW c = yiF"
    by simp
  show ?thesis by (rule conjI[OF a conjI[OF b c]])
qed

theorem C7_operating_line_witness:
  "\<forall>g. \<exists>w s. stage_stepping default_config (69/22) (2/5) (1229/2275) g = Inr (w, s) \<and>
      iteration_count s = 10 \<and>
      fst (stages s ! 0) = 49/50 \<and>
      snd (stages s ! 0) = (69/22) / (69/22 + 1) * (49/50) + xD default_config / (69/22 + 1) \<and>
      fst (stages s ! 12) = 336107217218/1029653039415 \<and>
      snd (stages s ! 12) =
        (1229/2275 - xW default_config) / (2/5 - xW default_config) *
          (336107217218/1029653039415 - xW default_config) + xW default_config"
proof
  fix g :: vars
  from default_stepping[of g] obtain s where
    D: "stage_stepping default_config (69/22) (2/5) (1229/2275) g = Inr (False, s) \<and>
        iteration_count s = 10 \<and>
        fst (stages s ! 0) = 49/50 \<and>
        fst (stages s ! 12) = 336107217218/1029653039415" ..
  note run = D[THEN conjunct1]
  note cnt = D[THEN conjunct2, THEN conjunct1]
  note x0 = D[THEN conjunct2, THEN conjunct2, THEN conjunct1]
  note x12 = D[THEN conjunct2, THEN conjunct2, THEN conjunct2]
  have k0: "(0::nat) < iteration_count s" and k6: "(6::nat) < iteration_count s"
    by (simp_all add: cnt)
  note C7 = C7_operating_line[OF run, THEN conjunct1, rule_format]
  have gt: "2/5 < fst (stages s ! (2 * 0))" by (simp add: x0)
  have le: "fst (stages s ! (2 * 6)) \<le> 2/5" by (simp add: x12)
  have y0: "snd (stages s ! 0) = (69/22) / (69/22 + 1) * (49/50) + xD default_config / (69/22 + 1)"
    using C7[OF k0, THEN conjunct1, rule_format, OF gt] by (simp add: x0)
  have y12: "snd (stages s ! 12) =
        (1229/2275 - xW default_config) / (2/5 - xW default_config) *
          (336107217218/1029653039415 - xW default_config) + xW default_config"
    using C7[OF k6, THEN conjunct2, THEN conjunct1, rule_format, OF le] by (simp add: x12)
  show "\<exists>w s. stage_stepping default_config (69/22) (2/5) (1229/2275) g = Inr (w, s) \<and>
      iteration_count s = 10 \<and>
      fst (stages s ! 0) = 49/50 \<and>
      snd (stages s ! 0) = (69/22) / (69/22 + 1) * (49/50) + xD default_config / (69/22 + 1) \<and>
      fst (stages s ! 12) = 336107217218/1029653039415 \<and>
      snd (stages s ! 12) =
        (1229/2275 - xW default_config) / (2/5 - xW default_config) *
          (336107217218/1029653039415 - xW default_config) + xW default_config"
    by (intro exI[of _ False] exI[of _ s] conjI run cnt x0 y0 x12 y12)
qed

subsection \<open>The script on the edges of the real-valued model\<close>

text \<open>When \<open>xiF = xW\<close> the slope computed by \<^verbatim>\<open>stripping_line\<close> is not finite, but the loop
  never reaches its stripping branch (there \<open>current_x > xW + tolerance\<close>), and the summary
  is printed. A table of fewer than four rows stops the script at the spline fit.\<close>

lemma script_stripping_line_not_read:
  "\<exists>r s. script (default_config\<lparr>xF := 0.02\<rparr>) g = Inr (r, s) \<and>
     reported_R_min r = 19 / 3 \<and> \<not> warning r"
  by (simp add: run_simps default_simps)

lemma script_short_table:
  "script (default_config\<lparr>equilibrium_data := [(0.1, 0.22), (0.5, 0.72)]\<rparr>) g = Inl SplineError"
  by (simp add: run_simps default_simps)

subsection \<open>Independence of earlier runs\<close>

lemma loop_body'_same:
  assumes "stages' s = stages' t" "current_x' s = current_x' t" "iteration_count' s = iteration_count' t"
  shows "loop_body' A c R xiF yiF s = loop_body' A c R xiF yiF t"
  using assms by (cases s, cases t) (auto simp: loop_body'_def Let_def split: sum.splits)

lemma stage_loop'_same:
  assumes "stages' s = stages' t" "current_x' s = current_x' t" "iteration_count' s = iteration_count' t"
  shows "map_sum id (\<lambda>u. (stages' u, iteration_count' u)) (stage_loop' A c R xiF yiF s) =
         map_sum id (\<lambda>u. (stages' u, iteration_count' u)) (stage_loop' A c R xiF yiF t)"
  unfolding stage_loop'.simps[of A c R xiF yiF s] stage_loop'.simps[of A c R xiF yiF t]
  using assms loop_body'_same[OF assms, of A c R xiF yiF] by simp

lemma stage_loop'_reset:
  "map_sum id (\<lambda>u. (stages' u, iteration_count' u))
     (stage_loop' A c R xiF yiF (g\<lparr>stages' := [], current_x' := x, iteration_count' := 0\<rparr>)) =
   map_sum id (\<lambda>u. (stages' u, iteration_count' u))
     (stage_loop' A c R xiF yiF (g'\<lparr>stages' := [], current_x' := x, iteration_count' := 0\<rparr>))"
  by (rule stage_loop'_same) simp_all

lemma stage_loop'_Inl:
  assumes "stage_loop' A c R xiF yiF (g\<lparr>stages' := [], current_x' := x, iteration_count' := 0\<rparr>) = Inl e"
  shows "stage_loop' A c R xiF yiF (g'\<lparr>stages' := [], current_x' := x, iteration_count' := 0\<rparr>) = Inl e"
  using stage_loop'_reset[where A = A and c = c and R = R and xiF = xiF and yiF = yiF and g = g and x = x and g' = g'] assms
  by (cases "stage_loop' A c R xiF yiF (g'\<lparr>stages' := [], current_x' := x, iteration_count' := 0\<rparr>)") auto

lemma stage_loop'_Inr:
  assumes "stage_loop' A c R xiF yiF (g\<lparr>stages' := [], current_x' := x, iteration_count' := 0\<rparr>) = Inr u"
  shows "\<exists>u'. stage_loop' A c R xiF yiF (g'\<lparr>stages' := [], current_x' := x, iteration_count' := 0\<rparr>) = Inr u' \<and>
              stages' u' = stages' u \<and> iteration_count' u' = iteration_count' u"
  using stage_loop'_reset[where A = A and c = c and R = R and xiF = xiF and yiF = yiF and g = g and x = x and g' = g'] assms
  by (cases "stage_loop' A c R xiF yiF (g'\<lparr>stages' := [], current_x' := x, iteration_count' := 0\<rparr>)") auto

lemma script'_Inl:
  assumes "script' A c g = Inl e"
  shows "script' A c g' = Inl e"
  using assms unfolding script'_def Let_def
  by (auto split: sum.splits prod.splits option.splits if_splits
      dest: stage_loop'_Inl[where g = g and g' = g'] stage_loop'_Inr[where g = g and g' = g'])

lemma script'_Inr:
  assumes "script' A c g = Inr (r, s)"
  shows "\<exists>s'. script' A c g' = Inr (r, s')"
  using assms unfolding script'_def Let_def
  by (auto split: sum.splits prod.splits option.splits if_splits
      dest: stage_loop'_Inl[where g = g and g' = g'] stage_loop'_Inr[where g = g and g' = g'])

text \<open>
  C9: what the script prints, or the exception it stops with, is a function of the
  configuration alone, in every arithmetic. Whatever the loop variables hold when the script
  starts, for instance the values a previous run has left, the outcome is the same:
  \<open>R_min\<close>, \<open>R\<close>, the number of stages, the feed stage, the column diameter and the warning.
\<close>

theorem C9_rerun:
  "map_sum id fst (script' A c g) = map_sum id fst (script' A c g')"
proof (cases "script' A c g")
  case (Inl e)
  then show ?thesis using script'_Inl[OF Inl, of g'] by simp
next
  case (Inr p)
  obtain r s where p: "p = (r, s)" by (cases p)
  from script'_Inr[OF Inr[unfolded p], of g'] obtain s' where "script' A c g' = Inr (r, s')" ..
  with Inr p show ?thesis by simp
qed

subsection \<open>The two scripts agree\<close>

text \<open>Read in the exact arithmetic, the script over an arbitrary arithmetic does what the
  real-valued script of the first part does, on every run that the latter follows: the same
  summary, the same final loop variables, the same exception.\<close>

lemma search_loop'_exact:
  "search_loop' exact y xe ye low high = search_loop y xe ye low high"
proof (induction y xe ye low high rule: search_loop.induct)
  case (1 y xe ye low high)
  show ?case
  proof (cases "low \<le> high")
    case False
    then show ?thesis
      by (subst search_loop'.simps, subst search_loop.simps) simp
  next
    case True
    show ?thesis
    proof (cases "index ye ((low + high) div 2)")
      case (Inl e)
      with True show ?thesis
        by (subst search_loop'.simps, subst search_loop.simps) (simp add: Let_def)
    next
      case (Inr ym)
      note IH = "1.IH"[OF True refl Inr]
      consider (lt) "ym < y" | (gt) "\<not> ym < y" "y < ym" | (eq) "\<not> ym < y" "\<not> y < ym" by blast
      then show ?thesis
      proof cases
        case lt
        with True Inr IH(1)[OF lt] show ?thesis
          by (subst search_loop'.simps, subst search_loop.simps) (simp add: Let_def exact_def)
      next
        case gt
        with True Inr IH(2)[OF gt] show ?thesis
          by (subst search_loop'.simps, subst search_loop.simps) (simp add: Let_def exact_def)
      next
        case eq
        with True Inr show ?thesis
          by (subst search_loop'.simps, subst search_loop.simps) (simp add: Let_def exact_def)
      qed
    qed
  qed
qed

lemma bsi'_exact:
  assumes len: "length xe = length ye" and ne: "ye \<noteq> []"
  shows "binary_search_interpolate' exact y xe ye = binary_search_interpolate y xe ye"
proof -
  have n0: "0 < length ye" using ne by simp
  from search_loop_bracket[OF len, of 0 "int (length ye) - 1" y]
  consider (found) i where "search_loop y xe ye 0 (int (length ye) - 1) = Inr (Inl (xe ! i))"
    | (low) l where "search_loop y xe ye 0 (int (length ye) - 1) = Inr (Inr l)" "0 \<le> l" "l \<le> int (length ye)"
        "l = 0 \<or> ye ! nat (l - 1) < y" "l = int (length ye) \<or> y < ye ! nat l"
    using n0 by auto
  then show ?thesis
  proof cases
    case found
    then show ?thesis
      by (simp add: binary_search_interpolate'_def binary_search_interpolate_def search_loop'_exact)
  next
    case low
    show ?thesis
    proof (cases "l = 0 \<or> l = int (length ye)")
      case True
      with low(1) show ?thesis
        by (auto simp: binary_search_interpolate'_def binary_search_interpolate_def search_loop'_exact)
    next
      case False
      then have rng: "0 < l" "l < int (length ye)" using low(2,3) by auto
      with low(4,5) have y12: "ye ! nat (l - 1) < ye ! nat l" by auto
      have i1: "index ye (l - 1) = Inr (ye ! nat (l - 1))" "index ye l = Inr (ye ! nat l)"
        using rng by (simp_all add: index_nth)
      have i2: "index xe (l - 1) = Inr (xe ! nat (l - 1))" "index xe l = Inr (xe ! nat l)"
        using rng len by (simp_all add: index_nth)
      have "interpolate' exact y xe ye l = interpolate y xe ye l"
        using y12 by (simp add: interpolate'_def interpolate_def i1 i2 exact_def)
      with low(1) rng show ?thesis
        by (simp add: binary_search_interpolate'_def binary_search_interpolate_def search_loop'_exact)
    qed
  qed
qed

lemma find_intersection'_exact:
  "find_intersection' exact xe ye xf xd = find_intersection xe ye xf xd"
  unfolding find_intersection_def
  by (induction xe ye xf rule: find_from.induct) (simp_all add: exact_def)

lemma loop_body'_exact:
  assumes "equilibrium_data c \<noteq> []"
  shows "loop_body' exact (in_exact c) R xiF yiF (in_exact_vars s) =
         map_sum id (map_prod id in_exact_vars) (loop_body c R xiF yiF s)"
proof -
  have len: "length (x_eq c) = length (y_eq c)" by (simp add: x_eq_def y_eq_def)
  have ne: "y_eq c \<noteq> []" using assms by (simp add: y_eq_def)
  have tab: "x_eq' (in_exact c) = x_eq c" "y_eq' (in_exact c) = y_eq c"
    by (simp_all add: x_eq'_def y_eq'_def x_eq_def y_eq_def in_exact_def)
  have b: "binary_search_interpolate' exact y (x_eq c) (y_eq c) = binary_search_interpolate y (x_eq c) (y_eq c)" for y
    by (rule bsi'_exact[OF len ne])
  have par: "xD' (in_exact c) = xD c" "xW' (in_exact c) = xW c" by (simp_all add: in_exact_def)
  have ops: "flt exact = (<)" "fadd exact = (+)" "fsub exact = (-)" "fmul exact = (*)" "fdiv exact = (/)"
    "fabs exact = abs" "flit exact 1 = 1" "flit exact (1 / 10000) = tolerance"
    by (simp_all add: exact_def tolerance_def of_rat_divide)
  show ?thesis
    unfolding loop_body'_def loop_body_def Let_def tab b par ops
    by (cases s) (auto simp: in_exact_vars_def split: sum.splits)
qed

lemma stage_loop'_exact:
  assumes "equilibrium_data c \<noteq> []"
  shows "stage_loop' exact (in_exact c) R xiF yiF (in_exact_vars s) =
         map_sum id in_exact_vars (stage_loop c R xiF yiF s)"
  using assms
proof (induction c R xiF yiF s rule: stage_loop.induct)
  case (1 c R xiF yiF s)
  note body = loop_body'_exact[OF "1.prems", of R xiF yiF s]
  have cond: "(flt exact (fadd exact (xW' (in_exact c)) (flit exact (1 / 10000))) (current_x' (in_exact_vars s)) \<and>
                iteration_count' (in_exact_vars s) < max_iterations) =
              (current_x s > xW c + tolerance \<and> iteration_count s < max_iterations)"
    by (simp add: exact_def in_exact_def in_exact_vars_def tolerance_def of_rat_divide)
  show ?case
  proof (cases "current_x s > xW c + tolerance \<and> iteration_count s < max_iterations")
    case False
    then show ?thesis
      by (subst stage_loop'.simps, subst stage_loop.simps) (simp only: cond if_False map_sum.simps)
  next
    case True
    show ?thesis
    proof (cases "loop_body c R xiF yiF s")
      case (Inl e)
      with True body show ?thesis
        by (subst stage_loop'.simps, subst stage_loop.simps) (simp add: cond)
    next
      case (Inr p)
      obtain brk t where p: "p = (brk, t)" by (cases p)
      show ?thesis
      proof (cases brk)
        case True
        with \<open>current_x s > xW c + tolerance \<and> iteration_count s < max_iterations\<close> body Inr p
        show ?thesis
          by (subst stage_loop'.simps, subst stage_loop.simps) (simp add: cond)
      next
        case False
        from "1.IH"[OF True Inr[unfolded p] refl False "1.prems"]
        have "stage_loop' exact (in_exact c) R xiF yiF (in_exact_vars t) =
              map_sum id in_exact_vars (stage_loop c R xiF yiF t)" .
        with True False body Inr p show ?thesis
          by (subst stage_loop'.simps, subst stage_loop.simps) (simp add: cond)
      qed
    qed
  qed
qed

lemma in_exact_vars_reset:
  "(in_exact_vars g)\<lparr>stages' := [], current_x' := x, iteration_count' := 0\<rparr> =
   in_exact_vars (g\<lparr>stages := [], current_x := x, iteration_count := 0\<rparr>)"
  by (simp add: in_exact_vars_def)

lemma script'_exact:
  assumes "script c g \<noteq> Inl NonFinite"
  shows "script' exact (in_exact c) (in_exact_vars g) =
         map_sum id (map_prod in_exact_report in_exact_vars) (script c g)"
proof (cases "equilibrium_data c = []")
  case True
  then show ?thesis by (simp add: script'_def script_def in_exact_def)
next
  case ne: False
  have tab: "x_eq' (in_exact c) = x_eq c" "y_eq' (in_exact c) = y_eq c"
    by (simp_all add: x_eq'_def y_eq'_def x_eq_def y_eq_def in_exact_def)
  have par: "xF' (in_exact c) = xF c" "xD' (in_exact c) = xD c" "xW' (in_exact c) = xW c"
    "q' (in_exact c) = q c" "R_multiplier' (in_exact c) = R_multiplier c"
    "vapor_velocity' (in_exact c) = vapor_velocity c" "tray_spacing' (in_exact c) = tray_spacing c"
    "equilibrium_data' (in_exact c) = equilibrium_data c"
    by (simp_all add: in_exact_def)
  have ops: "flt exact = (<)" "feq exact = (=)" "fadd exact = (+)" "fsub exact = (-)" "fmul exact = (*)"
    "fdiv exact = (/)" "fneg exact = uminus" "fsqrt exact = sqrt" "fpi exact = pi"
    "flit exact = of_rat"
    "fspline_raises exact = (\<lambda>xe ye. \<not> (sorted_wrt (<) xe \<and> 3 < length xe))"
    by (simp_all add: exact_def)
  have feed: "\<exists>p. feed_line' exact (xF c) (q c) = Inr p"
    by (simp add: feed_line'_def py_div_def ops Let_def of_rat_divide)
  have loop: "stage_loop' exact (in_exact c) R xiF yiF
                ((in_exact_vars g)\<lparr>stages' := [], current_x' := xD c, iteration_count' := 0\<rparr>) =
              map_sum id in_exact_vars
                (stage_loop c R xiF yiF (g\<lparr>stages := [], current_x := xD c, iteration_count := 0\<rparr>))"
    for R xiF yiF
    unfolding in_exact_vars_reset by (rule stage_loop'_exact[OF ne])
  from feed obtain p where p: "feed_line' exact (xF c) (q c) = Inr p" ..
  obtain xf yf where pf: "p = (xf, yf)" by (cases p)
  note left = script'_def Let_def tab par find_intersection'_exact loop p pf
  show ?thesis
  proof (cases "sorted_wrt (<) (x_eq c) \<and> 3 < length (x_eq c)")
    case False
    with ne show ?thesis
      unfolding left script_def by (auto simp: ops of_rat_divide spline_fit_def)
  next
    case spl: True
    show ?thesis
    proof (cases "find_intersection (x_eq c) (y_eq c) (xF c) (xD c)")
      case None
      with ne spl show ?thesis
        unfolding left script_def by (simp add: ops of_rat_divide spline_fit_def minimum_reflux_def)
    next
      case (Some pt)
      obtain xiE yiE where pt: "pt = (xiE, yiE)" by (cases pt)
      define R_min where "R_min = (xD c - yiE) / (yiE - xiE)"
      define R where "R = R_multiplier c * R_min"
      have g1: "yiE - xiE \<noteq> 0"
        using assms ne spl Some pt by (auto simp: script_def spline_fit_def minimum_reflux_def)
      then have mr: "minimum_reflux c = Inr (xiE, yiE, R_min)"
        using Some pt by (simp add: minimum_reflux_def R_min_def)
      have g2: "R + 1 \<noteq> 0"
        using assms ne spl mr
        by (auto simp: script_def spline_fit_def rectifying_line_def Let_def R_def split: if_splits)
      then obtain rl where rl: "rectifying_line (xD c) R = Inr rl"
        by (simp add: rectifying_line_def Let_def)
      obtain xr yr where rlp: "rl = (xr, yr)" by (cases rl)
      have g3: "intersection_x c R \<noteq> Inl NonFinite"
        using assms ne spl mr rl rlp
        by (auto simp: script_def spline_fit_def Let_def R_def intersection_x_def split: if_splits)
      then obtain xiF where ix: "intersection_x c R = Inr xiF"
        by (auto simp: intersection_x_def split: if_splits)
      have ix': "intersection_x' exact (in_exact c) R = Inr xiF"
        using ix by (auto simp: intersection_x_def intersection_x'_def py_div_def ops par of_rat_divide split: if_splits)
      obtain s where run: "stage_loop c R xiF (R / (R + 1) * xiF + xD c / (R + 1)) (g\<lparr>stages := [], current_x := xD c, iteration_count := 0\<rparr>) = Inr s"
        using stage_loop_total[OF ne] by blast
      have cs: "column_sizing c \<noteq> Inl NonFinite"
        using assms ne spl mr rl rlp ix run
        by (auto simp: script_def spline_fit_def Let_def R_def stage_stepping_def
            split: sum.splits)
      have cs': "column_sizing' exact (in_exact c) = column_sizing c"
        using cs by (auto simp: column_sizing_def column_sizing'_def py_div_def ops par Let_def of_rat_divide split: if_splits)
      show ?thesis
      proof (cases "column_sizing c")
        case (Inl e)
        have "script c g = Inl e"
          using ne spl mr rl rlp ix run Inl
          by (simp add: script_def spline_fit_def Let_def R_def stage_stepping_def)
        moreover have "script' exact (in_exact c) (in_exact_vars g) = Inl e"
          unfolding left
          using ne spl Some pt ix' run Inl
          by (simp add: ops of_rat_divide R_min_def R_def cs' rectifying_line'_def stripping_line'_def Let_def)
        ultimately show ?thesis by simp
      next
        case (Inr d)
        have "script c g =
               Inr (\<lparr> warning = (iteration_count s \<ge> max_iterations),
                       reported_R_min = R_min, reported_R = R,
                       number_of_stages = length (stages s) div 2,
                       feed_stage = length (filter (\<lambda>p. fst p > xiF) (stages s)),
                       column_diameter = d,
                       reported_tray_spacing = tray_spacing c \<rparr>, s)"
          using ne spl mr rl rlp ix run Inr
          by (simp add: script_def spline_fit_def Let_def R_def stage_stepping_def)
        moreover have "script' exact (in_exact c) (in_exact_vars g) =
               Inr (\<lparr> warning' = (iteration_count s \<ge> max_iterations),
                       reported_R_min' = R_min, reported_R' = R,
                       number_of_stages' = length (stages s) div 2,
                       feed_stage' = length (filter (\<lambda>p. fst p > xiF) (stages s)),
                       column_diameter' = d,
                       reported_tray_spacing' = tray_spacing c \<rparr>, in_exact_vars s)"
          unfolding left
          using ne spl Some pt ix' run Inr
          by (simp add: ops of_rat_divide R_min_def R_def cs' rectifying_line'_def stripping_line'_def Let_def
              in_exact_vars_def)
        ultimately show ?thesis by (simp add: in_exact_report_def)
      qed
    qed
  qed
qed

text \<open>On the default configuration, evaluated directly:\<close>

lemma script'_exact_default:
  "\<exists>r s. script' exact (in_exact default_config) g = Inr (r, s) \<and>
     reported_R_min' r = 23/11 \<and> reported_R' r = 69/22 \<and>
     number_of_stages' r = 10 \<and> feed_stage' r = 11 \<and> \<not> warning' r \<and>
     map fst (stages' s) =
       [49/50, 9/10, 9/10, 727/910, 727/910, 55577/82810, 55577/82810, 16043847/30142840,
        16043847/30142840, 5081477473/12343492980, 5081477473/12343492980,
        336107217218/1029653039415, 336107217218/1029653039415,
        3673281978018407/15429007577953970, 3673281978018407/15429007577953970,
        71639466001607560053/453504819738801040210, 71639466001607560053/453504819738801040210,
        1/10, 1/10, 1/10]"
  by (simp add: script'_def feed_line'_def py_div_def rectifying_line'_def stripping_line'_def
      intersection_x'_def column_sizing'_def stage_loop'.simps loop_body'_def Let_def
      max_iterations_def binary_search_interpolate'_def search_loop'.simps interpolate'_def
      index_def exact_def in_exact_def x_eq'_def y_eq'_def default_config_def default_table_def
      of_rat_divide)

end
